theory Spec2Isabelle
  imports Complex_Main "HOL-Library.Word"
begin

section \<open>JavaScript numbers\<close>

text \<open>
  The program computes with JavaScript numbers (IEEE 754 binary64). A number is modelled
  as a finite real value or one of the three special values, and there is no negative
  zero. Results of arithmetic that reach the binary64 overflow threshold
  \<open>2^1024 - 2^970\<close> become an infinity, as rounding to nearest does.

  The strength estimator works with \<open>Math.pow\<close> and \<open>Math.log2\<close>, whose last bits the
  language leaves to the implementation; its finite results are the exact reals
  (\<open>to_number\<close>, \<open>divide_number\<close>) and its properties are meant up to that rounding. The
  formatter prints digits of a quotient, so its divisions are the correctly rounded
  binary64 divisions (\<open>round64\<close>, \<open>divide_binary64\<close>, further down).
\<close>

datatype number = Num real | PosInf | NegInf | NaN

definition overflow_threshold :: real where
  "overflow_threshold = 2 ^ 1024 - 2 ^ 970"

definition to_number :: "real \<Rightarrow> number" where
  "to_number x =
     (if overflow_threshold \<le> x then PosInf
      else if x \<le> - overflow_threshold then NegInf
      else Num x)"

text \<open>The relational operators \<open><\<close>, \<open>>=\<close> and \<open><=\<close>: every comparison with NaN is false.\<close>

fun lt :: "number \<Rightarrow> number \<Rightarrow> bool" where
  "lt NaN y = False"
| "lt x NaN = False"
| "lt (Num a) (Num b) = (a < b)"
| "lt (Num a) PosInf = True"
| "lt (Num a) NegInf = False"
| "lt PosInf y = False"
| "lt NegInf NegInf = False"
| "lt NegInf y = True"

definition ge :: "number \<Rightarrow> number \<Rightarrow> bool" where
  "ge x y = (x \<noteq> NaN \<and> y \<noteq> NaN \<and> \<not> lt x y)"

definition le :: "number \<Rightarrow> number \<Rightarrow> bool" where
  "le x y = (x \<noteq> NaN \<and> y \<noteq> NaN \<and> \<not> lt y x)"

text \<open>The operator \<open>/\<close>.\<close>

fun divide_number :: "number \<Rightarrow> number \<Rightarrow> number" where
  "divide_number NaN y = NaN"
| "divide_number x NaN = NaN"
| "divide_number (Num a) (Num b) =
     (if b = 0 then (if a = 0 then NaN else if 0 < a then PosInf else NegInf)
      else to_number (a / b))"
| "divide_number (Num a) y = Num 0"
| "divide_number PosInf (Num b) = (if 0 \<le> b then PosInf else NegInf)"
| "divide_number NegInf (Num b) = (if 0 \<le> b then NegInf else PosInf)"
| "divide_number x y = NaN"

text \<open>\<open>Math.log2\<close>.\<close>

fun Math_log2 :: "number \<Rightarrow> number" where
  "Math_log2 (Num x) = (if x < 0 then NaN else if x = 0 then NegInf else Num (log 2 x))"
| "Math_log2 PosInf = PosInf"
| "Math_log2 NegInf = NaN"
| "Math_log2 NaN = NaN"

text \<open>
  \<open>Math.pow\<close>, in the case order of the language definition: a NaN exponent, a zero
  exponent, a NaN base, the infinite bases, a zero base, the infinite exponents, a negative
  base with a fractional exponent, and the ordinary power.
\<close>

definition is_odd_integer :: "real \<Rightarrow> bool" where
  "is_odd_integer y = (y = of_int \<lfloor>y\<rfloor> \<and> odd \<lfloor>y\<rfloor>)"

fun Math_pow :: "number \<Rightarrow> number \<Rightarrow> number" where
  "Math_pow x NaN = NaN"
| "Math_pow x (Num y) =
     (if y = 0 then Num 1
      else case x of
        NaN \<Rightarrow> NaN
      | PosInf \<Rightarrow> (if 0 < y then PosInf else Num 0)
      | NegInf \<Rightarrow> (if 0 < y then (if is_odd_integer y then NegInf else PosInf) else Num 0)
      | Num b \<Rightarrow>
          (if b = 0 then (if 0 < y then Num 0 else PosInf)
           else if 0 < b then to_number (b powr y)
           else if y \<noteq> of_int \<lfloor>y\<rfloor> then NaN
           else if is_odd_integer y then to_number (- ((- b) powr y))
           else to_number ((- b) powr y)))"
| "Math_pow x PosInf =
     (case x of
        NaN \<Rightarrow> NaN
      | PosInf \<Rightarrow> PosInf
      | NegInf \<Rightarrow> PosInf
      | Num b \<Rightarrow> (if 1 < \<bar>b\<bar> then PosInf else if \<bar>b\<bar> = 1 then NaN else Num 0))"
| "Math_pow x NegInf =
     (case x of
        NaN \<Rightarrow> NaN
      | PosInf \<Rightarrow> Num 0
      | NegInf \<Rightarrow> Num 0
      | Num b \<Rightarrow> (if 1 < \<bar>b\<bar> then Num 0 else if \<bar>b\<bar> = 1 then NaN else PosInf))"

text \<open>
  Rounding to binary64, to nearest with ties to even: a value of binary exponent \<open>e\<close>
  (at least \<open>-1022\<close>, where the subnormal numbers begin) is rounded to a multiple of
  \<open>2^(e - 52)\<close>.
\<close>

definition round_half_even :: "real \<Rightarrow> int" where
  "round_half_even y =
     (let f = \<lfloor>y\<rfloor>; d = y - of_int f
      in if d < 1 / 2 then f else if 1 / 2 < d then f + 1 else if even f then f else f + 1)"

definition round64 :: "real \<Rightarrow> real" where
  "round64 x =
     (if x = 0 then 0
      else
        (let e = max \<lfloor>log 2 \<bar>x\<bar>\<rfloor> (- 1022);
             ulp = 2 powr (of_int e - 52)
         in sgn x * of_int (round_half_even (\<bar>x\<bar> / ulp)) * ulp))"

definition to_binary64 :: "real \<Rightarrow> number" where
  "to_binary64 x =
     (if overflow_threshold \<le> x then PosInf
      else if x \<le> - overflow_threshold then NegInf
      else Num (round64 x))"

text \<open>The operator \<open>/\<close> with its result rounded to binary64.\<close>

fun divide_binary64 :: "number \<Rightarrow> number \<Rightarrow> number" where
  "divide_binary64 NaN y = NaN"
| "divide_binary64 x NaN = NaN"
| "divide_binary64 (Num a) (Num b) =
     (if b = 0 then (if a = 0 then NaN else if 0 < a then PosInf else NegInf)
      else to_binary64 (a / b))"
| "divide_binary64 (Num a) y = Num 0"
| "divide_binary64 PosInf (Num b) = (if 0 \<le> b then PosInf else NegInf)"
| "divide_binary64 NegInf (Num b) = (if 0 \<le> b then NegInf else PosInf)"
| "divide_binary64 x y = NaN"

section \<open>Character sets\<close>

text \<open>
  Class \<open>CharSet\<close> holds an array of one-character strings; \<open>getAll\<close> returns it. The four
  subclasses fix the array.
\<close>

datatype CharSet = CharSet (getAll: "char list")

definition LowerCaseSet :: CharSet where
  "LowerCaseSet = CharSet ''abcdefghijklmnopqrstuvwxyz''"

definition UpperCaseSet :: CharSet where
  "UpperCaseSet = CharSet ''ABCDEFGHIJKLMNOPQRSTUVWXYZ''"

definition NumberSet :: CharSet where
  "NumberSet = CharSet ''0123456789''"

definition SymbolSet :: CharSet where
  "SymbolSet = CharSet
     [CHR ''!'', CHR ''@'', CHR ''#'', CHR ''$'', CHR ''%'', CHR ''^'', CHR ''&'', CHR ''*'',
      CHR ''('', CHR '')'', CHR ''-'', CHR ''_'', CHR ''='', CHR ''+'', CHR ''['', CHR '']'',
      CHR ''{'', CHR ''}'', CHR '';'', CHR '':'', CHR 0x27, CHR 0x22, CHR '','', CHR ''.'',
      CHR ''<'', CHR ''>'', CHR ''/'', CHR ''?'', CHR 0x5C, CHR ''|'', CHR ''~'', CHR 0x60]"

section \<open>PasswordGenerator\<close>

text \<open>
  The two calls of \<open>generate\<close> that can throw. \<open>new Uint32Array(length)\<close> is a \<open>RangeError\<close>
  for a length above \<open>2^53 - 1\<close> and otherwise an array of \<open>length\<close> zeros (an engine
  that cannot allocate the array raises the same error earlier).
  \<open>crypto.getRandomValues(array)\<close> is a \<open>QuotaExceededError\<close> for an array of more than
  65536 bytes, that is more than 16384 words; otherwise it fills the array, and the
  word it writes at index \<open>i\<close> is the parameter \<open>rnd i\<close>.
\<close>

datatype error = RangeError | QuotaExceededError

definition new_Uint32Array :: "nat \<Rightarrow> error + 32 word list" where
  "new_Uint32Array len = (if 2 ^ 53 - 1 < len then Inl RangeError else Inr (replicate len 0))"

definition getRandomValues :: "(nat \<Rightarrow> 32 word) \<Rightarrow> 32 word list \<Rightarrow> error + 32 word list" where
  "getRandomValues rnd array =
     (if 65536 < 4 * length array then Inl QuotaExceededError
      else Inr (map rnd [0..<length array]))"

text \<open>\<open>this.charSets.flatMap((set) => set.getAll())\<close>\<close>

definition pool_of :: "CharSet list \<Rightarrow> char list" where
  "pool_of charSets = concat (map getAll charSets)"

text \<open>The \<open>for\<close> loop of \<open>generate\<close>, from index \<open>i\<close> with the array \<open>result\<close> built so far.\<close>

function generate_loop ::
  "char list \<Rightarrow> 32 word list \<Rightarrow> nat \<Rightarrow> nat \<Rightarrow> char list \<Rightarrow> char list" where
  "generate_loop pool randomBytes len i result =
     (if i < len
      then generate_loop pool randomBytes len (i + 1)
             (result @ [pool ! (unat (randomBytes ! i) mod length pool)])
      else result)"
  by pat_completeness auto
termination
  by (relation "measure (\<lambda>(pool, randomBytes, len, i, result). len - i)") auto

declare generate_loop.simps [simp del]

text \<open>\<open>generate\<close>: \<open>Inl\<close> is the exception thrown, \<open>Inr\<close> the string returned.\<close>

definition generate :: "(nat \<Rightarrow> 32 word) \<Rightarrow> CharSet list \<Rightarrow> nat \<Rightarrow> error + char list" where
  "generate rnd charSets len =
     (let pool = pool_of charSets in
      if length pool = 0 then Inr []
      else
        (case new_Uint32Array len of
           Inl e \<Rightarrow> Inl e
         | Inr randomBytes \<Rightarrow>
             (case getRandomValues rnd randomBytes of
                Inl e \<Rightarrow> Inl e
              | Inr randomBytes \<Rightarrow> Inr (generate_loop pool randomBytes len 0 []))))"

section \<open>PasswordStatsCalculator\<close>

text \<open>
  The four regular expressions are single character classes, so \<open>test\<close> asks whether some
  character of the password lies in the class. A password is a list of 8-bit characters
  and \<open>password.length\<close> is the length of the list; a code unit beyond that range would
  fall into the fourth class like any other character outside the three alphabets.
\<close>

definition in_range :: "char \<Rightarrow> char \<Rightarrow> char \<Rightarrow> bool" where
  "in_range lo hi c = ((of_char lo :: nat) \<le> of_char c \<and> (of_char c :: nat) \<le> of_char hi)"

definition is_lower :: "char \<Rightarrow> bool" where
  "is_lower c = in_range CHR ''a'' CHR ''z'' c"

definition is_upper :: "char \<Rightarrow> bool" where
  "is_upper c = in_range CHR ''A'' CHR ''Z'' c"

definition is_digit :: "char \<Rightarrow> bool" where
  "is_digit c = in_range CHR ''0'' CHR ''9'' c"

definition is_other :: "char \<Rightarrow> bool" where
  "is_other c = (\<not> (is_lower c \<or> is_upper c \<or> is_digit c))"

definition regex_test :: "(char \<Rightarrow> bool) \<Rightarrow> char list \<Rightarrow> bool" where
  "regex_test cls password = list_ex cls password"

record stats =
  entropyBits :: number
  crackTimeSeconds :: number

text \<open>Lines 66 to 70 of \<open>calculate\<close>: the variable \<open>pool\<close> after the four tests.\<close>

definition calculate_pool :: "nat \<Rightarrow> char list \<Rightarrow> nat" where
  "calculate_pool symbolsLength password =
     (let pool = 0;
          pool = (if regex_test is_lower password then pool + 26 else pool);
          pool = (if regex_test is_upper password then pool + 26 else pool);
          pool = (if regex_test is_digit password then pool + 10 else pool);
          pool = (if regex_test is_other password then pool + symbolsLength else pool)
      in pool)"

definition guessesPerSecond :: real where
  "guessesPerSecond = 10 ^ 12"

definition calculate :: "nat \<Rightarrow> char list \<Rightarrow> stats" where
  "calculate symbolsLength password =
     (let pool = calculate_pool symbolsLength password;
          entropyBits = Math_log2 (Math_pow (Num (real pool)) (Num (real (length password))));
          crackTimeSeconds = divide_number (Math_pow (Num 2) entropyBits) (Num guessesPerSecond)
      in \<lparr> entropyBits = entropyBits, crackTimeSeconds = crackTimeSeconds \<rparr>)"

text \<open>The calculator the program constructs: \<open>new SymbolSet().getAll().length\<close>.\<close>

definition symbolsLength0 :: nat where
  "symbolsLength0 = length (getAll SymbolSet)"

section \<open>CrackTimeFormatter\<close>

text \<open>
  \<open>Number.prototype.toFixed\<close>, step by step as the language defines it: the special values
  print as their names; the sign is split off; at magnitudes from \<open>10^21\<close> on the digits
  are those of \<open>Number::toString\<close>; below, \<open>n\<close> is the integer nearest to \<open>x * 10^f\<close>, the
  larger one at a tie, its decimal digits are padded with zeros to \<open>f + 1\<close> digits and
  the point is put before the last \<open>f\<close>. \<open>Number::toString\<close> on finite numbers belongs to
  the runtime; it is the parameter \<open>Number_toString\<close>.
\<close>

definition digit_char :: "nat \<Rightarrow> char" where
  "digit_char d = ''0123456789'' ! d"

fun decimal :: "nat \<Rightarrow> string" where
  "decimal n = (if n < 10 then [digit_char n] else decimal (n div 10) @ [digit_char (n mod 10)])"

declare decimal.simps [simp del]

definition toFixed :: "(real \<Rightarrow> string) \<Rightarrow> number \<Rightarrow> nat \<Rightarrow> string" where
  "toFixed Number_toString x f =
     (case x of
        NaN \<Rightarrow> ''NaN''
      | PosInf \<Rightarrow> ''Infinity''
      | NegInf \<Rightarrow> ''-Infinity''
      | Num r \<Rightarrow>
          (let s = (if r < 0 then ''-'' else []);
               a = (if r < 0 then - r else r);
               m = (if 10 ^ 21 \<le> a then Number_toString a
                    else
                      (let n = nat \<lfloor>a * 10 ^ f + 1 / 2\<rfloor>;
                           m = decimal n
                       in if f \<noteq> 0
                          then (let k = length m;
                                    m = (if k \<le> f then replicate (f + 1 - k) CHR ''0'' @ m else m);
                                    k = (if k \<le> f then f + 1 else k)
                                in take (k - f) m @ ''.'' @ drop (k - f) m)
                          else m))
           in s @ m))"

text \<open>
  A number printed with exactly two decimal places, in the words of the specification
  and without the functions above: the string is a run of digits, a point and two
  digits; the run has no leading zero unless it is the single digit 0; and the digits,
  read as a decimal number of hundredths, are the value rounded to the nearest hundredth
  (a half rounds up).
\<close>

definition digit_value :: "char \<Rightarrow> nat" where
  "digit_value c = of_char c - 48"

definition digits_value :: "string \<Rightarrow> nat" where
  "digits_value s = foldl (\<lambda>v c. 10 * v + digit_value c) 0 s"

definition prints_two_decimals :: "real \<Rightarrow> string \<Rightarrow> bool" where
  "prints_two_decimals x s =
     (let k = length s; whole = take (k - 3) s; hundredths = drop (k - 2) s
      in 4 \<le> k \<and> s ! (k - 3) = CHR ''.''
         \<and> list_all (\<lambda>c. c \<in> set ''0123456789'') (whole @ hundredths)
         \<and> (whole = ''0'' \<or> hd whole \<noteq> CHR ''0'')
         \<and> int (digits_value (whole @ hundredths)) = \<lfloor>x * 100 + 1 / 2\<rfloor>)"

definition units :: "string list" where
  "units = [[], ''Thousand'', ''Million'', ''Billion'', ''Trillion'']"

text \<open>The \<open>while\<close> loop of \<open>format\<close>, on the pair of \<open>years\<close> and \<open>idx\<close>.\<close>

function scale_years :: "number \<Rightarrow> nat \<Rightarrow> number \<times> nat" where
  "scale_years years idx =
     (if ge years (Num 1000) \<and> idx < length units - 1
      then scale_years (divide_binary64 years (Num 1000)) (idx + 1)
      else (years, idx))"
  by pat_completeness auto
termination
  by (relation "measure (\<lambda>(years, idx). length units - 1 - idx)") auto

declare scale_years.simps [simp del]

text \<open>
  The template literals of \<open>format\<close>. The loop leaves \<open>idx\<close> below \<open>units.length\<close>, so
  \<open>units[idx]\<close> is always one of the five labels.
\<close>

definition format :: "(real \<Rightarrow> string) \<Rightarrow> number \<Rightarrow> string" where
  "format Number_toString seconds =
     (let minute = Num 60; hour = Num 3600; day = Num 86400; year = Num 31557600 in
      if lt seconds (Num 60)
      then toFixed Number_toString seconds 2 @ '' Seconds''
      else if lt seconds hour
      then toFixed Number_toString (divide_binary64 seconds minute) 2 @ '' Minutes''
      else if lt seconds day
      then toFixed Number_toString (divide_binary64 seconds hour) 2 @ '' Hours''
      else if lt seconds year
      then toFixed Number_toString (divide_binary64 seconds day) 2 @ '' Days''
      else
        (case scale_years (divide_binary64 seconds year) 0 of
           (years, idx) \<Rightarrow>
             toFixed Number_toString years 2 @ '' '' @ units ! idx @ '' Years''))"

section \<open>PasswordStrength\<close>

record colorEntry =
  entry_id :: nat
  entry_type :: string
  entry_color :: string

definition colorCode :: "colorEntry list" where
  "colorCode =
     [\<lparr> entry_id = 0, entry_type = ''Very Weak'', entry_color = ''#A10702'' \<rparr>,
      \<lparr> entry_id = 1, entry_type = ''Weak'', entry_color = ''#F3A712'' \<rparr>,
      \<lparr> entry_id = 2, entry_type = ''Reasonable'', entry_color = ''#8CD867'' \<rparr>,
      \<lparr> entry_id = 3, entry_type = ''Strong'', entry_color = ''#04E762'' \<rparr>,
      \<lparr> entry_id = 4, entry_type = ''Very Strong'', entry_color = ''#0C7489'' \<rparr>]"

definition determine :: "number \<Rightarrow> nat" where
  "determine bits =
     (if lt bits (Num 28) then 0
      else if lt bits (Num 36) then 1
      else if lt bits (Num 60) then 2
      else if lt bits (Num 128) then 3
      else 4)"

text \<open>\<open>this.colorCode[idx]\<close>; an index outside the array reads \<open>undefined\<close>, here \<open>None\<close>.\<close>

definition getColorAndText :: "colorEntry list \<Rightarrow> number \<Rightarrow> colorEntry option" where
  "getColorAndText cc bits =
     (let idx = determine bits in
      if idx < length cc then Some (cc ! idx) else None)"

section \<open>The generator and the strength tiers\<close>

lemma generate_loop_eq:
  "i \<le> len \<Longrightarrow>
   generate_loop pool randomBytes len i result =
     result @ map (\<lambda>j. pool ! (unat (randomBytes ! j) mod length pool)) [i..<len]"
proof (induction pool randomBytes len i result rule: generate_loop.induct)
  case (1 pool randomBytes len i result)
  show ?case
  proof (cases "i < len")
    case True
    then have "generate_loop pool randomBytes len i result =
      generate_loop pool randomBytes len (i + 1)
        (result @ [pool ! (unat (randomBytes ! i) mod length pool)])"
      by (subst generate_loop.simps) simp
    also have "\<dots> = (result @ [pool ! (unat (randomBytes ! i) mod length pool)]) @
        map (\<lambda>j. pool ! (unat (randomBytes ! j) mod length pool)) [i + 1..<len]"
      using True by (intro "1.IH") simp_all
    finally show ?thesis
      using True by (simp add: upt_conv_Cons)
  next
    case False
    with "1.prems" show ?thesis
      by (subst generate_loop.simps) simp
  qed
qed

lemma generate_eq:
  assumes "pool_of charSets \<noteq> []" and "n \<le> 16384"
  shows "generate rnd charSets n =
     Inr (map (\<lambda>j. pool_of charSets ! (unat (rnd j) mod length (pool_of charSets))) [0..<n])"
proof -
  have a: "new_Uint32Array n = Inr (replicate n 0)"
    using assms(2) by (simp add: new_Uint32Array_def)
  have b: "getRandomValues rnd (replicate n 0) = Inr (map rnd [0..<n])"
    using assms(2) by (simp add: getRandomValues_def)
  show ?thesis
    using assms(1) by (simp add: generate_def Let_def a b generate_loop_eq cong: map_cong)
qed

lemma generate_throws:
  assumes "pool_of charSets \<noteq> []" and "16384 < n"
  shows "\<exists>e. generate rnd charSets n = Inl e"
proof (cases "2 ^ 53 - 1 < n")
  case True
  then have "new_Uint32Array n = Inl RangeError"
    by (simp add: new_Uint32Array_def)
  with assms(1) show ?thesis
    by (simp add: generate_def Let_def)
next
  case False
  then have a: "new_Uint32Array n = Inr (replicate n 0)"
    by (simp add: new_Uint32Array_def)
  have b: "getRandomValues rnd (replicate n 0) = Inl QuotaExceededError"
    using assms(2) by (simp add: getRandomValues_def)
  from assms(1) show ?thesis
    by (simp add: generate_def Let_def a b)
qed

lemma pool_of_nonempty:
  assumes "charSets \<noteq> []"
    and "set charSets \<subseteq> {LowerCaseSet, UpperCaseSet, NumberSet, SymbolSet}"
  shows "pool_of charSets \<noteq> []"
proof -
  from assms(1) obtain c cs where cs: "charSets = c # cs"
    by (cases charSets) auto
  with assms(2) have "c \<in> {LowerCaseSet, UpperCaseSet, NumberSet, SymbolSet}"
    by simp
  then have "getAll c \<noteq> []"
    by (auto simp: LowerCaseSet_def UpperCaseSet_def NumberSet_def SymbolSet_def)
  then show ?thesis
    by (simp add: cs pool_of_def)
qed

text \<open>
  Claim C1, as the code has it. For every non-empty sequence of the four character
  classes and every length up to 16384, \<open>generate\<close> returns exactly \<open>length\<close> characters;
  the character at position \<open>i\<close> is the pool's character at index \<open>rnd i mod pool.length\<close>,
  hence a character of the pool; and the pool is the concatenation of the classes' arrays
  in order, nothing removed: its length is the sum of their lengths. For a length above
  16384 \<open>generate\<close> throws. The random words are the parameter \<open>rnd\<close>.
\<close>

theorem generate_length_and_pool:
  assumes "charSets \<noteq> []"
    and "set charSets \<subseteq> {LowerCaseSet, UpperCaseSet, NumberSet, SymbolSet}"
  shows "(n \<le> 16384 \<longrightarrow>
           (\<exists>password. generate rnd charSets n = Inr password
              \<and> length password = n
              \<and> set password \<subseteq> set (concat (map getAll charSets))
              \<and> (\<forall>i<n. password ! i =
                    concat (map getAll charSets) !
                      (unat (rnd i) mod length (concat (map getAll charSets))))))
       \<and> (16384 < n \<longrightarrow> (\<exists>e. generate rnd charSets n = Inl e))
       \<and> length (concat (map getAll charSets)) = sum_list (map (length \<circ> getAll) charSets)"
proof -
  let ?pool = "concat (map getAll charSets)"
  let ?pw = "map (\<lambda>j. ?pool ! (unat (rnd j) mod length ?pool)) [0..<n]"
  have ne: "pool_of charSets \<noteq> []"
    using assms by (rule pool_of_nonempty)
  have pool: "pool_of charSets = ?pool"
    by (simp add: pool_of_def)
  have pos: "0 < length ?pool"
    using ne by (simp add: pool)
  have mem: "set ?pw \<subseteq> set ?pool"
  proof
    fix c assume "c \<in> set ?pw"
    then obtain j where "c = ?pool ! (unat (rnd j) mod length ?pool)"
      by auto
    moreover have "unat (rnd j) mod length ?pool < length ?pool"
      using pos by simp
    ultimately show "c \<in> set ?pool"
      by (metis nth_mem)
  qed
  have ok: "\<exists>password. generate rnd charSets n = Inr password
              \<and> length password = n
              \<and> set password \<subseteq> set ?pool
              \<and> (\<forall>i<n. password ! i = ?pool ! (unat (rnd i) mod length ?pool))"
    if "n \<le> 16384"
  proof -
    have "generate rnd charSets n = Inr ?pw"
      using generate_eq [OF ne that, of rnd] by (simp only: pool)
    moreover have "length ?pw = n" by simp
    moreover have "\<forall>i<n. ?pw ! i = ?pool ! (unat (rnd i) mod length ?pool)" by simp
    ultimately show ?thesis using mem by blast
  qed
  have throws: "\<exists>e. generate rnd charSets n = Inl e" if "16384 < n"
    using ne that by (rule generate_throws)
  have sum: "length ?pool = sum_list (map (length \<circ> getAll) charSets)"
    by (simp add: length_concat comp_def)
  from ok throws sum show ?thesis by blast
qed

theorem generate_length_and_pool_witness:
  "[LowerCaseSet, NumberSet] \<noteq> []
   \<and> set [LowerCaseSet, NumberSet] \<subseteq> {LowerCaseSet, UpperCaseSet, NumberSet, SymbolSet}
   \<and> (3::nat) \<le> 16384
   \<and> (\<exists>password. generate (\<lambda>i. of_nat (i * 7)) [LowerCaseSet, NumberSet] 3 = Inr password
        \<and> length password = 3
        \<and> set password \<subseteq> set (concat (map getAll [LowerCaseSet, NumberSet])))
   \<and> generate (\<lambda>i. of_nat (i * 7)) [LowerCaseSet, NumberSet] 3 = Inr ''aho''"
proof -
  have a: "[LowerCaseSet, NumberSet] \<noteq> []" by simp
  have b: "set [LowerCaseSet, NumberSet] \<subseteq> {LowerCaseSet, UpperCaseSet, NumberSet, SymbolSet}"
    by simp
  have c: "generate (\<lambda>i. of_nat (i * 7)) [LowerCaseSet, NumberSet] 3 = Inr ''aho''"
    by (simp add: generate_def pool_of_def LowerCaseSet_def NumberSet_def getRandomValues_def
        new_Uint32Array_def generate_loop.simps upt_rec)
  have d: "(3::nat) \<le> 16384" by simp
  from generate_length_and_pool [OF a b, of 3 "\<lambda>i. of_nat (i * 7)"] a b c d show ?thesis
    by blast
qed

text \<open>
  Claim C1 as stated fails for a long password: with the lowercase class and length
  16385 the array has more than 65536 bytes, \<open>crypto.getRandomValues\<close> throws and
  \<open>generate\<close> returns no string.
\<close>

theorem generate_quota_counterexample:
  "\<forall>rnd. generate rnd [LowerCaseSet] 16385 = Inl QuotaExceededError"
  by (simp add: generate_def pool_of_def LowerCaseSet_def new_Uint32Array_def
      getRandomValues_def)

text \<open>
  Claim C2. With no class enabled, and more generally with an empty pool, \<open>generate\<close>
  returns the empty string whatever the requested length, since it returns before the
  array is allocated; with length 0 it returns the empty string whatever the classes.
  In none of these cases does it throw.
\<close>

theorem generate_empty:
  "generate rnd [] n = Inr []
   \<and> (concat (map getAll charSets) = [] \<longrightarrow> generate rnd charSets n = Inr [])
   \<and> generate rnd charSets 0 = Inr []"
  by (simp add: generate_def pool_of_def new_Uint32Array_def getRandomValues_def
      generate_loop.simps [of _ _ 0 0])

theorem generate_empty_witness:
  "concat (map getAll [CharSet [], CharSet []]) = []
   \<and> generate (\<lambda>i. 5) [CharSet [], CharSet []] 12 = Inr []
   \<and> generate (\<lambda>i. 5) [] 12 = Inr []
   \<and> generate (\<lambda>i. 5) [LowerCaseSet] 0 = Inr []"
  using generate_empty [of "\<lambda>i. 5" 12 "[CharSet [], CharSet []]"]
    generate_empty [of "\<lambda>i. 5" 12 "[LowerCaseSet]"]
  by simp

text \<open>
  Claim C7. \<open>determine\<close> maps the entropy to a tier by the strict thresholds 28, 36, 60 and
  128, the first match winning, and \<open>getColorAndText\<close> returns the entry of the fixed
  table for that tier; in particular 27 gives 0, 28 gives 1, 59.9 gives 2 and 128 gives 4.
\<close>

theorem determine_thresholds:
  "determine (Num r) =
     (if r < 28 then 0 else if r < 36 then 1 else if r < 60 then 2 else if r < 128 then 3 else 4)
   \<and> getColorAndText colorCode (Num r) = Some
     (if r < 28 then \<lparr> entry_id = 0, entry_type = ''Very Weak'', entry_color = ''#A10702'' \<rparr>
      else if r < 36 then \<lparr> entry_id = 1, entry_type = ''Weak'', entry_color = ''#F3A712'' \<rparr>
      else if r < 60 then \<lparr> entry_id = 2, entry_type = ''Reasonable'', entry_color = ''#8CD867'' \<rparr>
      else if r < 128 then \<lparr> entry_id = 3, entry_type = ''Strong'', entry_color = ''#04E762'' \<rparr>
      else \<lparr> entry_id = 4, entry_type = ''Very Strong'', entry_color = ''#0C7489'' \<rparr>)
   \<and> determine (Num 27) = 0 \<and> determine (Num 28) = 1
   \<and> determine (Num (599 / 10)) = 2 \<and> determine (Num 128) = 4
   \<and> determine PosInf = 4 \<and> determine NegInf = 0 \<and> determine NaN = 4"
  by (simp add: determine_def getColorAndText_def colorCode_def)

theorem determine_thresholds_witness:
  "determine (Num 40) = 2
   \<and> getColorAndText colorCode (Num 40) =
       Some \<lparr> entry_id = 2, entry_type = ''Reasonable'', entry_color = ''#8CD867'' \<rparr>"
  using determine_thresholds [of 40] by simp

text \<open>
  Claim C10. \<open>determine\<close> is monotone: \<open>x <= y\<close> implies \<open>determine x <= determine y\<close>, and its
  result is one of 0, 1, 2, 3, 4.
\<close>

theorem determine_monotone:
  "(le x y \<longrightarrow> determine x \<le> determine y) \<and> determine x \<in> {0, 1, 2, 3, 4}"
  by (cases x; cases y) (auto simp: determine_def le_def)

theorem determine_monotone_witness:
  "le (Num 27) (Num 28) \<and> determine (Num 27) \<le> determine (Num 28)
   \<and> determine (Num 27) \<in> {0, 1, 2, 3, 4}"
  using determine_monotone [of "Num 27" "Num 28"] by (simp add: le_def)

section \<open>The strength estimator\<close>

lemma overflow_threshold_gt_1: "1 < overflow_threshold"
  by (simp add: overflow_threshold_def)

lemma to_number_Num: "- overflow_threshold < x \<Longrightarrow> x < overflow_threshold \<Longrightarrow> to_number x = Num x"
  by (simp add: to_number_def)

lemma to_number_PosInf: "overflow_threshold \<le> x \<Longrightarrow> to_number x = PosInf"
  by (simp add: to_number_def)

lemma symbolsLength0_eq: "symbolsLength0 = 32"
  by (simp add: symbolsLength0_def SymbolSet_def)

lemma calculate_cases:
  fixes symbolsLength :: nat and password :: "char list"
  defines "p \<equiv> calculate_pool symbolsLength password"
    and "n \<equiv> length password"
  shows "calculate symbolsLength password =
    (if n = 0 then \<lparr> entropyBits = Num 0, crackTimeSeconds = Num (1 / 10 ^ 12) \<rparr>
     else if p = 0 then \<lparr> entropyBits = NegInf, crackTimeSeconds = Num 0 \<rparr>
     else if overflow_threshold \<le> real p ^ n
       then \<lparr> entropyBits = PosInf, crackTimeSeconds = PosInf \<rparr>
     else \<lparr> entropyBits = Num (real n * log 2 (real p)),
            crackTimeSeconds = Num (real p ^ n / 10 ^ 12) \<rparr>)"
proof -
  note T = overflow_threshold_gt_1
  have calc: "calculate symbolsLength password =
      \<lparr> entropyBits = Math_log2 (Math_pow (Num (real p)) (Num (real n))),
        crackTimeSeconds =
          divide_number (Math_pow (Num 2) (Math_log2 (Math_pow (Num (real p)) (Num (real n)))))
            (Num (10 ^ 12)) \<rparr>"
    by (simp add: calculate_def Let_def p_def n_def guessesPerSecond_def)
  consider (empty) "n = 0" | (zero) "0 < n" "p = 0"
    | (inf) "0 < n" "0 < p" "overflow_threshold \<le> real p ^ n"
    | (fin) "0 < n" "0 < p" "real p ^ n < overflow_threshold"
    by fastforce
  then show ?thesis
  proof cases
    case empty
    have "to_number (1 / 10 ^ 12) = Num (1 / 10 ^ 12)"
      using T by (intro to_number_Num) simp_all
    with empty show ?thesis
      by (simp add: calc)
  next
    case zero
    have "to_number 0 = Num 0"
      using T by (intro to_number_Num) simp_all
    with zero show ?thesis
      by (simp add: calc)
  next
    case inf
    have pw: "real p powr real n = real p ^ n"
      using inf(2) by (simp add: powr_realpow)
    have "Math_pow (Num (real p)) (Num (real n)) = PosInf"
      using inf by (simp add: pw to_number_PosInf)
    with inf show ?thesis
      by (simp add: calc)
  next
    case fin
    let ?x = "real p ^ n"
    have x1: "1 \<le> ?x"
      using fin(2) by (simp add: one_le_power)
    have pw: "real p powr real n = ?x"
      using fin(2) by (simp add: powr_realpow)
    have tox: "to_number ?x = Num ?x"
      using x1 fin(3) T by (intro to_number_Num) linarith+
    have pow1: "Math_pow (Num (real p)) (Num (real n)) = Num ?x"
      using fin by (simp add: pw tox)
    have lg: "log 2 ?x = real n * log 2 (real p)"
      using fin(2) by (simp add: log_nat_power)
    have ent: "Math_log2 (Math_pow (Num (real p)) (Num (real n))) = Num (real n * log 2 (real p))"
      unfolding pow1 using x1 fin(2) by (simp add: lg)
    have "2 powr (log 2 ?x) = ?x"
      using x1 fin(2) by (intro powr_log_cancel) simp_all
    then have cancel: "2 powr (real n * log 2 (real p)) = ?x"
      by (simp only: lg)
    have pow2: "Math_pow (Num 2) (Num (real n * log 2 (real p))) = Num ?x"
    proof (cases "real n * log 2 (real p) = 0")
      case True
      with cancel have "?x = 1" by simp
      with True show ?thesis by simp
    next
      case False
      then show ?thesis by (simp add: cancel tox)
    qed
    have "?x / 10 ^ 12 \<le> ?x"
      using x1 by (simp add: field_simps)
    then have "to_number (?x / 10 ^ 12) = Num (?x / 10 ^ 12)"
      using x1 fin(3) T by (intro to_number_Num) (simp_all add: less_le_trans [of _ 0] le_less_trans)
    then have "divide_number (Num ?x) (Num (10 ^ 12)) = Num (?x / 10 ^ 12)"
      by simp
    with fin show ?thesis
      unfolding calc ent pow2 by simp
  qed
qed

lemma is_lower_iff: "is_lower c \<longleftrightarrow> c \<in> set ''abcdefghijklmnopqrstuvwxyz''"
proof -
  have "c \<in> set ''abcdefghijklmnopqrstuvwxyz'' \<longleftrightarrow>
        (of_char c :: nat) \<in> of_char ` set ''abcdefghijklmnopqrstuvwxyz''"
    by (simp only: inj_image_mem_iff [OF inj_of_char])
  also have "\<dots> \<longleftrightarrow> 97 \<le> (of_char c :: nat) \<and> (of_char c :: nat) \<le> 122"
    by (simp del: of_char_eq_iff) arith
  finally show ?thesis
    by (simp add: is_lower_def in_range_def)
qed

lemma is_upper_iff: "is_upper c \<longleftrightarrow> c \<in> set ''ABCDEFGHIJKLMNOPQRSTUVWXYZ''"
proof -
  have "c \<in> set ''ABCDEFGHIJKLMNOPQRSTUVWXYZ'' \<longleftrightarrow>
        (of_char c :: nat) \<in> of_char ` set ''ABCDEFGHIJKLMNOPQRSTUVWXYZ''"
    by (simp only: inj_image_mem_iff [OF inj_of_char])
  also have "\<dots> \<longleftrightarrow> 65 \<le> (of_char c :: nat) \<and> (of_char c :: nat) \<le> 90"
    by (simp del: of_char_eq_iff) arith
  finally show ?thesis
    by (simp add: is_upper_def in_range_def)
qed

lemma is_digit_iff: "is_digit c \<longleftrightarrow> c \<in> set ''0123456789''"
proof -
  have "c \<in> set ''0123456789'' \<longleftrightarrow> (of_char c :: nat) \<in> of_char ` set ''0123456789''"
    by (simp only: inj_image_mem_iff [OF inj_of_char])
  also have "\<dots> \<longleftrightarrow> 48 \<le> (of_char c :: nat) \<and> (of_char c :: nat) \<le> 57"
    by (simp del: of_char_eq_iff) arith
  finally show ?thesis
    by (simp add: is_digit_def in_range_def)
qed

lemma is_other_iff:
  "is_other c \<longleftrightarrow>
   c \<notin> set (''abcdefghijklmnopqrstuvwxyz'' @ ''ABCDEFGHIJKLMNOPQRSTUVWXYZ'' @ ''0123456789'')"
  unfolding is_other_def is_lower_iff is_upper_iff is_digit_iff set_append by blast

lemma calculate_pool_sum:
  "calculate_pool symbolsLength password =
     (if regex_test is_lower password then 26 else 0)
   + (if regex_test is_upper password then 26 else 0)
   + (if regex_test is_digit password then 10 else 0)
   + (if regex_test is_other password then symbolsLength else 0)"
  by (simp add: calculate_pool_def Let_def)

lemma calculate_pool_le: "calculate_pool symbolsLength password \<le> 62 + symbolsLength"
  by (simp add: calculate_pool_sum)

lemma calculate_pool_ge:
  assumes "password \<noteq> []"
  shows "min 10 symbolsLength \<le> calculate_pool symbolsLength password"
proof -
  from assms obtain c where c: "c \<in> set password"
    by (cases password) auto
  have "is_lower c \<or> is_upper c \<or> is_digit c \<or> is_other c"
    by (auto simp: is_other_def)
  with c have "regex_test is_lower password \<or> regex_test is_upper password
      \<or> regex_test is_digit password \<or> regex_test is_other password"
    unfolding regex_test_def list_ex_iff by blast
  then show ?thesis
    by (auto simp: calculate_pool_sum)
qed

lemma calculate_pool_Nil: "calculate_pool symbolsLength [] = 0"
  by (simp add: calculate_pool_sum regex_test_def)

lemma max_pool_no_overflow: "(94::real) ^ 156 < overflow_threshold"
  by (simp add: overflow_threshold_def)

lemma short_password_no_overflow:
  assumes "length password \<le> 156"
  shows "real (calculate_pool symbolsLength0 password) ^ length password < overflow_threshold"
proof -
  let ?p = "calculate_pool symbolsLength0 password"
  have p: "real ?p \<le> 94"
    using calculate_pool_le [of symbolsLength0 password] by (simp add: symbolsLength0_eq)
  have "real ?p ^ length password \<le> 94 ^ length password"
    using p by (intro power_mono) simp_all
  also have "\<dots> \<le> (94::real) ^ 156"
    using assms by (intro power_increasing) simp_all
  also note max_pool_no_overflow
  finally show ?thesis .
qed

lemma calculate_long_lowercase:
  "calculate symbolsLength0 (replicate 218 CHR ''a'') =
     \<lparr> entropyBits = PosInf, crackTimeSeconds = PosInf \<rparr>"
proof -
  let ?pw = "replicate 218 CHR ''a''"
  have s: "set ?pw = {CHR ''a''}"
    by simp
  have p: "calculate_pool symbolsLength0 ?pw = 26"
    unfolding calculate_pool_sum regex_test_def list_ex_iff s
    by (simp add: is_lower_def is_upper_def is_digit_def is_other_def in_range_def)
  have n: "length ?pw = 218"
    by simp
  have "overflow_threshold \<le> (26::real) ^ 218"
    by (simp add: overflow_threshold_def)
  then show ?thesis
    unfolding calculate_cases p n by simp
qed

text \<open>
  Claim C3, as the code has it. For the empty password \<open>Math.pow(0, 0)\<close> is 1, so
  \<open>entropyBits\<close> is 0; \<open>crackTimeSeconds\<close> is then \<open>2^0 / 1e12\<close>, that is \<open>1e-12\<close> and not 0.
  The formatter prints that value as \<open>0.00 Seconds\<close>.
\<close>

theorem calculate_empty:
  "entropyBits (calculate symbolsLength []) = Num 0
   \<and> crackTimeSeconds (calculate symbolsLength []) = Num (1 / 10 ^ 12)
   \<and> format ts (crackTimeSeconds (calculate symbolsLength [])) = ''0.00 Seconds''"
proof -
  have c: "calculate symbolsLength [] = \<lparr> entropyBits = Num 0, crackTimeSeconds = Num (1 / 10 ^ 12) \<rparr>"
    using calculate_cases [of symbolsLength "[]"] by simp
  have "format ts (Num (1 / 10 ^ 12)) = ''0.00 Seconds''"
    by (simp add: format_def toFixed_def Let_def decimal.simps digit_char_def)
  with c show ?thesis by simp
qed

text \<open>
  Claim C3 as stated fails: \<open>entropyBits\<close> and \<open>crackTimeSeconds\<close> of the empty password are
  not both 0.
\<close>

theorem calculate_empty_crack_time_counterexample:
  "\<not> (entropyBits (calculate symbolsLength0 []) = Num 0
      \<and> crackTimeSeconds (calculate symbolsLength0 []) = Num 0)"
proof -
  have "calculate symbolsLength0 [] = \<lparr> entropyBits = Num 0, crackTimeSeconds = Num (1 / 10 ^ 12) \<rparr>"
    using calculate_cases [of symbolsLength0 "[]"] by simp
  then show ?thesis by simp
qed

text \<open>
  Claim C4, as the code has it. The reconstructed alphabet size is 26 for a lowercase
  letter, plus 26 for an uppercase letter, plus 10 for a digit, plus 32 for a character
  outside these three alphabets. For a non-empty password whose \<open>pool ^ length\<close> stays
  below the overflow threshold, in particular for every non-empty password of at most 156
  characters, \<open>entropyBits\<close> is \<open>length * log2(pool)\<close>; where \<open>pool ^ length\<close> reaches the
  threshold, \<open>Math.pow\<close> returns \<open>Infinity\<close> and so does \<open>entropyBits\<close>. The password \<open>a\<close>
  gives pool 26 and \<open>log2(26)\<close>, the password \<open>aA1!\<close> gives pool 94 and \<open>4 * log2(94)\<close>.
\<close>

theorem calculate_pool_and_entropy:
  "calculate_pool symbolsLength0 password =
       (if \<exists>c\<in>set password. c \<in> set ''abcdefghijklmnopqrstuvwxyz'' then 26 else 0)
     + (if \<exists>c\<in>set password. c \<in> set ''ABCDEFGHIJKLMNOPQRSTUVWXYZ'' then 26 else 0)
     + (if \<exists>c\<in>set password. c \<in> set ''0123456789'' then 10 else 0)
     + (if \<exists>c\<in>set password. c \<notin> set (''abcdefghijklmnopqrstuvwxyz''
              @ ''ABCDEFGHIJKLMNOPQRSTUVWXYZ'' @ ''0123456789'') then 32 else 0)
   \<and> (password \<noteq> []
        \<and> real (calculate_pool symbolsLength0 password) ^ length password < overflow_threshold
      \<longrightarrow> entropyBits (calculate symbolsLength0 password) =
            Num (real (length password) * log 2 (real (calculate_pool symbolsLength0 password))))
   \<and> (password \<noteq> [] \<and> length password \<le> 156
      \<longrightarrow> entropyBits (calculate symbolsLength0 password) =
            Num (real (length password) * log 2 (real (calculate_pool symbolsLength0 password))))
   \<and> (overflow_threshold \<le> real (calculate_pool symbolsLength0 password) ^ length password
      \<longrightarrow> entropyBits (calculate symbolsLength0 password) = PosInf)
   \<and> calculate_pool symbolsLength0 ''a'' = 26
   \<and> entropyBits (calculate symbolsLength0 ''a'') = Num (log 2 26)
   \<and> calculate_pool symbolsLength0 ''aA1!'' = 94
   \<and> entropyBits (calculate symbolsLength0 ''aA1!'') = Num (4 * log 2 94)"
proof -
  let ?p = "calculate_pool symbolsLength0 password"
  let ?n = "length password"
  have pool: "?p =
       (if \<exists>c\<in>set password. c \<in> set ''abcdefghijklmnopqrstuvwxyz'' then 26 else 0)
     + (if \<exists>c\<in>set password. c \<in> set ''ABCDEFGHIJKLMNOPQRSTUVWXYZ'' then 26 else 0)
     + (if \<exists>c\<in>set password. c \<in> set ''0123456789'' then 10 else 0)
     + (if \<exists>c\<in>set password. c \<notin> set (''abcdefghijklmnopqrstuvwxyz''
              @ ''ABCDEFGHIJKLMNOPQRSTUVWXYZ'' @ ''0123456789'') then 32 else 0)"
    unfolding calculate_pool_sum regex_test_def list_ex_iff is_lower_iff is_upper_iff
      is_digit_iff is_other_iff symbolsLength0_eq ..
  have fin: "entropyBits (calculate symbolsLength0 password) = Num (real ?n * log 2 (real ?p))"
    if "password \<noteq> []" and "real ?p ^ ?n < overflow_threshold"
  proof -
    have "10 \<le> ?p"
      using calculate_pool_ge [OF that(1), of symbolsLength0] by (simp add: symbolsLength0_eq)
    with that show ?thesis
      by (simp add: calculate_cases)
  qed
  have short: "entropyBits (calculate symbolsLength0 password) = Num (real ?n * log 2 (real ?p))"
    if "password \<noteq> []" and "?n \<le> 156"
    using that fin short_password_no_overflow by blast
  have inf: "entropyBits (calculate symbolsLength0 password) = PosInf"
    if "overflow_threshold \<le> real ?p ^ ?n"
  proof -
    have "?n \<noteq> 0"
      using that short_password_no_overflow [of password] by (cases "?n = 0") auto
    moreover have "?p \<noteq> 0"
      using that overflow_threshold_gt_1 \<open>?n \<noteq> 0\<close> by (cases "?p = 0") (auto simp: zero_power)
    ultimately show ?thesis
      using that by (simp add: calculate_cases)
  qed
  have pa: "calculate_pool symbolsLength0 ''a'' = 26"
    by (simp add: calculate_pool_sum regex_test_def is_lower_def is_upper_def is_digit_def
        is_other_def in_range_def)
  have ea: "entropyBits (calculate symbolsLength0 ''a'') = Num (log 2 26)"
    by (simp add: calculate_cases pa overflow_threshold_def)
  have pb: "calculate_pool symbolsLength0 ''aA1!'' = 94"
    by (simp add: calculate_pool_sum regex_test_def is_lower_def is_upper_def is_digit_def
        is_other_def in_range_def symbolsLength0_eq)
  have eb: "entropyBits (calculate symbolsLength0 ''aA1!'') = Num (4 * log 2 94)"
    by (simp add: calculate_cases pb overflow_threshold_def)
  from pool fin short inf pa ea pb eb show ?thesis
    by blast
qed

theorem calculate_pool_and_entropy_witness:
  "''Zx9#'' \<noteq> [] \<and> length ''Zx9#'' \<le> 156
   \<and> calculate_pool symbolsLength0 ''Zx9#'' = 94
   \<and> entropyBits (calculate symbolsLength0 ''Zx9#'') = Num (4 * log 2 94)"
proof -
  have p: "calculate_pool symbolsLength0 ''Zx9#'' = 94"
    by (simp add: calculate_pool_sum regex_test_def is_lower_def is_upper_def is_digit_def
        is_other_def in_range_def symbolsLength0_eq)
  from calculate_pool_and_entropy [of "''Zx9#''"] show ?thesis
    by (simp add: p)
qed

text \<open>
  Claim C4 as stated fails for a long password: with the four classes present and 157
  characters, \<open>94 ^ 157\<close> overflows and \<open>entropyBits\<close> is \<open>Infinity\<close>, not \<open>157 * log2(94)\<close>.
\<close>

theorem entropy_overflow_counterexample:
  "calculate_pool symbolsLength0 (''aA1!'' @ replicate 153 CHR ''a'') = 94
   \<and> length (''aA1!'' @ replicate 153 CHR ''a'') = 157
   \<and> entropyBits (calculate symbolsLength0 (''aA1!'' @ replicate 153 CHR ''a'')) = PosInf
   \<and> entropyBits (calculate symbolsLength0 (''aA1!'' @ replicate 153 CHR ''a''))
       \<noteq> Num (real (length (''aA1!'' @ replicate 153 CHR ''a''))
              * log 2 (real (calculate_pool symbolsLength0 (''aA1!'' @ replicate 153 CHR ''a''))))"
proof -
  let ?pw = "''aA1!'' @ replicate 153 CHR ''a''"
  have p: "calculate_pool symbolsLength0 ?pw = 94"
    by (simp add: calculate_pool_sum regex_test_def is_lower_def is_upper_def is_digit_def
        is_other_def in_range_def symbolsLength0_eq)
  have n: "length ?pw = 157"
    by simp
  have "overflow_threshold \<le> (94::real) ^ 157"
    by (simp add: overflow_threshold_def)
  then have "entropyBits (calculate symbolsLength0 ?pw) = PosInf"
    unfolding calculate_cases p n by simp
  with p n show ?thesis
    by simp
qed

text \<open>
  Claim C5. For every password \<open>crackTimeSeconds\<close> is \<open>Math.pow(2, entropyBits) / 1e12\<close>:
  for a finite \<open>entropyBits = e\<close> that is the number \<open>2^e / 10^12\<close>, and for an infinite
  one it is \<open>Infinity\<close>.
\<close>

theorem crack_time_formula:
  "crackTimeSeconds (calculate symbolsLength password) =
     divide_number (Math_pow (Num 2) (entropyBits (calculate symbolsLength password)))
       (Num (10 ^ 12))
   \<and> (entropyBits (calculate symbolsLength password) = Num e
      \<longrightarrow> crackTimeSeconds (calculate symbolsLength password) = Num (2 powr e / 10 ^ 12))
   \<and> (entropyBits (calculate symbolsLength password) = PosInf
      \<longrightarrow> crackTimeSeconds (calculate symbolsLength password) = PosInf)"
proof -
  let ?p = "calculate_pool symbolsLength password"
  let ?n = "length password"
  have a: "crackTimeSeconds (calculate symbolsLength password) =
     divide_number (Math_pow (Num 2) (entropyBits (calculate symbolsLength password)))
       (Num (10 ^ 12))"
    by (simp add: calculate_def Let_def guessesPerSecond_def)
  have b: "crackTimeSeconds (calculate symbolsLength password) = Num (2 powr e / 10 ^ 12)"
    if e: "entropyBits (calculate symbolsLength password) = Num e"
  proof (cases "?n = 0")
    case True
    with e show ?thesis
      by (simp add: calculate_cases)
  next
    case False
    with e have p: "?p \<noteq> 0" and x: "real ?p ^ ?n < overflow_threshold"
      and e': "e = real ?n * log 2 (real ?p)"
      by (auto simp: calculate_cases split: if_splits)
    have "2 powr (log 2 (real ?p ^ ?n)) = real ?p ^ ?n"
      using p by (intro powr_log_cancel) simp_all
    then have "2 powr e = real ?p ^ ?n"
      using p by (simp add: e' log_nat_power)
    with False p x show ?thesis
      by (simp add: calculate_cases)
  qed
  have c: "crackTimeSeconds (calculate symbolsLength password) = PosInf"
    if "entropyBits (calculate symbolsLength password) = PosInf"
    using that by (simp add: a)
  from a b c show ?thesis by blast
qed

theorem crack_time_formula_witness:
  "entropyBits (calculate symbolsLength0 ''a'') = Num (log 2 26)
   \<and> crackTimeSeconds (calculate symbolsLength0 ''a'') = Num (26 / 10 ^ 12)"
proof -
  have p: "calculate_pool symbolsLength0 ''a'' = 26"
    by (simp add: calculate_pool_sum regex_test_def is_lower_def is_upper_def is_digit_def
        is_other_def in_range_def)
  have e: "entropyBits (calculate symbolsLength0 ''a'') = Num (log 2 26)"
    by (simp add: calculate_cases p overflow_threshold_def)
  from crack_time_formula [of symbolsLength0 "''a''" "log 2 26"] e
  have "crackTimeSeconds (calculate symbolsLength0 ''a'') = Num (2 powr log 2 26 / 10 ^ 12)"
    by blast
  with e show ?thesis
    by simp
qed

text \<open>
  Claim C8, as the code has it. For every password of at most 156 characters, and more
  generally whenever \<open>pool ^ length\<close> stays below the overflow threshold, \<open>entropyBits\<close> is
  a finite non-negative number. For every password it is neither NaN nor \<open>-Infinity\<close>.
\<close>

theorem entropy_finite_nonnegative:
  "(length password \<le> 156
      \<longrightarrow> (\<exists>e. entropyBits (calculate symbolsLength0 password) = Num e \<and> 0 \<le> e))
   \<and> (real (calculate_pool symbolsLength0 password) ^ length password < overflow_threshold
      \<longrightarrow> (\<exists>e. entropyBits (calculate symbolsLength0 password) = Num e \<and> 0 \<le> e))
   \<and> (entropyBits (calculate symbolsLength0 password) \<noteq> NaN
      \<and> entropyBits (calculate symbolsLength0 password) \<noteq> NegInf)"
proof -
  let ?p = "calculate_pool symbolsLength0 password"
  let ?n = "length password"
  have p: "10 \<le> ?p" if "password \<noteq> []"
    using calculate_pool_ge [OF that, of symbolsLength0] by (simp add: symbolsLength0_eq)
  have fin: "\<exists>e. entropyBits (calculate symbolsLength0 password) = Num e \<and> 0 \<le> e"
    if x: "real ?p ^ ?n < overflow_threshold"
  proof (cases "password = []")
    case True
    then show ?thesis by (simp add: calculate_cases)
  next
    case False
    from p [OF False] have "0 \<le> log 2 (real ?p)" by simp
    with False p [OF False] x show ?thesis
      by (simp add: calculate_cases)
  qed
  have short: "\<exists>e. entropyBits (calculate symbolsLength0 password) = Num e \<and> 0 \<le> e"
    if "?n \<le> 156"
    using that fin short_password_no_overflow by blast
  have special: "entropyBits (calculate symbolsLength0 password) \<noteq> NaN
      \<and> entropyBits (calculate symbolsLength0 password) \<noteq> NegInf"
  proof (cases "password = []")
    case True
    then show ?thesis by (simp add: calculate_cases)
  next
    case False
    with p [OF False] show ?thesis
      by (simp add: calculate_cases)
  qed
  from fin short special show ?thesis by blast
qed

theorem entropy_finite_nonnegative_witness:
  "length ''correct horse'' \<le> 156
   \<and> (\<exists>e. entropyBits (calculate symbolsLength0 ''correct horse'') = Num e \<and> 0 \<le> e)"
  using entropy_finite_nonnegative [of "''correct horse''"] by simp

text \<open>
  Claim C8 as stated fails: for the password of 218 letters \<open>a\<close> the power \<open>26 ^ 218\<close>
  overflows and \<open>entropyBits\<close> is \<open>Infinity\<close>.
\<close>

theorem entropy_infinite_counterexample:
  "entropyBits (calculate symbolsLength0 (replicate 218 CHR ''a'')) = PosInf"
proof -
  let ?pw = "replicate 218 CHR ''a''"
  have s: "set ?pw = {CHR ''a''}"
    by simp
  have p: "calculate_pool symbolsLength0 ?pw = 26"
    unfolding calculate_pool_sum regex_test_def list_ex_iff s
    by (simp add: is_lower_def is_upper_def is_digit_def is_other_def in_range_def)
  have n: "length ?pw = 218"
    by simp
  have "overflow_threshold \<le> (26::real) ^ 218"
    by (simp add: overflow_threshold_def)
  then show ?thesis
    unfolding calculate_cases p n by simp
qed

text \<open>
  Claim C9. Every character is matched by at least one of the four class tests, so for
  a non-empty password the reconstructed alphabet size is at least 10 and \<open>entropyBits\<close>
  is strictly positive; the alphabet size is 0 exactly for the empty password.
\<close>

theorem pool_at_least_10:
  "(is_lower c \<or> is_upper c \<or> is_digit c \<or> is_other c)
   \<and> (password \<noteq> []
      \<longrightarrow> 10 \<le> calculate_pool symbolsLength0 password
        \<and> lt (Num 0) (entropyBits (calculate symbolsLength0 password)))
   \<and> (calculate_pool symbolsLength0 password = 0 \<longleftrightarrow> password = [])"
proof -
  let ?p = "calculate_pool symbolsLength0 password"
  let ?n = "length password"
  have cls: "is_lower c \<or> is_upper c \<or> is_digit c \<or> is_other c"
    by (auto simp: is_other_def)
  have p: "10 \<le> ?p" if "password \<noteq> []"
    using calculate_pool_ge [OF that, of symbolsLength0] by (simp add: symbolsLength0_eq)
  have pos: "lt (Num 0) (entropyBits (calculate symbolsLength0 password))" if ne: "password \<noteq> []"
  proof -
    from p [OF ne] have "0 < log 2 (real ?p)" by simp
    with ne have "0 < real ?n * log 2 (real ?p)" by simp
    with ne p [OF ne] show ?thesis
      by (simp add: calculate_cases)
  qed
  have zero: "?p = 0 \<longleftrightarrow> password = []"
    using p calculate_pool_Nil [of symbolsLength0] by fastforce
  from cls p pos zero show ?thesis by blast
qed

theorem pool_at_least_10_witness:
  "''~'' \<noteq> [] \<and> 10 \<le> calculate_pool symbolsLength0 ''~''
   \<and> lt (Num 0) (entropyBits (calculate symbolsLength0 ''~''))"
  using pool_at_least_10 [of "CHR ''~''" "''~''"] by simp

section \<open>The formatter\<close>

lemma round_half_even_bounds:
  assumes "0 \<le> y"
  shows "0 \<le> round_half_even y" and "real_of_int (round_half_even y) \<le> 2 * y"
proof -
  let ?f = "\<lfloor>y\<rfloor>"
  have f0: "0 \<le> ?f"
    using assms by simp
  have fy: "real_of_int ?f \<le> y"
    by simp
  show "0 \<le> round_half_even y"
    using f0 by (simp add: round_half_even_def Let_def)
  show "real_of_int (round_half_even y) \<le> 2 * y"
  proof (cases "y - real_of_int ?f < 1 / 2")
    case True
    then have "round_half_even y = ?f"
      by (simp add: round_half_even_def Let_def)
    with assms of_int_floor_le [of y] show ?thesis by linarith
  next
    case False
    then have "round_half_even y \<le> ?f + 1"
      by (simp add: round_half_even_def Let_def)
    then have "real_of_int (round_half_even y) \<le> real_of_int ?f + 1"
      by linarith
    moreover have "real_of_int ?f + 1 / 2 \<le> y"
      using False by simp
    moreover have "0 \<le> real_of_int ?f"
      using f0 by simp
    ultimately show ?thesis by linarith
  qed
qed

lemma round64_bounds:
  assumes "0 \<le> x"
  shows "0 \<le> round64 x" and "round64 x \<le> 2 * x"
proof -
  show "0 \<le> round64 x"
  proof (cases "x = 0")
    case True
    then show ?thesis by (simp add: round64_def)
  next
    case False
    with assms have "0 < x" by simp
    then show ?thesis
      using round_half_even_bounds(1) [of "x / 2 powr (real_of_int (max \<lfloor>log 2 x\<rfloor> (- 1022)) - 52)"]
      by (simp add: round64_def Let_def)
  qed
  show "round64 x \<le> 2 * x"
  proof (cases "x = 0")
    case True
    then show ?thesis by (simp add: round64_def)
  next
    case False
    with assms have x: "0 < x" by simp
    define u where "u = 2 powr (real_of_int (max \<lfloor>log 2 x\<rfloor> (- 1022)) - 52)"
    have u: "0 < u"
      by (simp add: u_def)
    have r: "round64 x = real_of_int (round_half_even (x / u)) * u"
      using x by (simp add: round64_def Let_def u_def)
    have "real_of_int (round_half_even (x / u)) \<le> 2 * (x / u)"
      using x u by (intro round_half_even_bounds(2)) simp
    then have "real_of_int (round_half_even (x / u)) * u \<le> 2 * (x / u) * u"
      using u by (intro mult_right_mono) simp_all
    with u show ?thesis
      by (simp add: r)
  qed
qed

lemma round64_eval:
  fixes k :: nat
  assumes "2 ^ k \<le> x" and "x < 2 ^ (k + 1)"
  shows "round64 x = real_of_int (round_half_even (x * 2 ^ 52 / 2 ^ k)) * 2 ^ k / 2 ^ 52"
proof -
  have x: "0 < x"
    using assms(1) by (meson less_le_trans zero_less_numeral zero_less_power)
  have "2 powr real_of_int (int k) \<le> x \<and> x < 2 powr real_of_int (int k + 1)"
    using assms by (simp add: powr_realpow powr_add)
  then have fl: "\<lfloor>log 2 x\<rfloor> = int k"
    using x by (subst floor_log_eq_powr_iff) simp_all
  have u: "2 powr (real k - 52) = 2 ^ k / 2 ^ 52"
    by (simp add: powr_diff powr_realpow)
  show ?thesis
    using x by (simp add: round64_def Let_def fl u)
qed

lemma divide_binary64_Num:
  assumes "0 \<le> a" and "a < overflow_threshold" and "1 \<le> b"
  shows "divide_binary64 (Num a) (Num b) = Num (round64 (a / b))"
proof -
  have "a * 1 \<le> a * b"
    using assms by (intro mult_left_mono) simp_all
  then have "a / b \<le> a"
    using assms by (simp add: field_simps)
  moreover have "0 \<le> a / b"
    using assms by simp
  ultimately have "to_binary64 (a / b) = Num (round64 (a / b))"
    using assms(2) overflow_threshold_gt_1 by (simp add: to_binary64_def)
  with assms(3) show ?thesis by simp
qed

lemma digit_char_mem: "d < 10 \<Longrightarrow> digit_char d \<in> set ''0123456789''"
  unfolding digit_char_def by (intro nth_mem) simp

lemma digit_value_digit_char: "d < 10 \<Longrightarrow> digit_value (digit_char d) = d"
proof -
  assume "d < 10"
  then have "d = 0 \<or> d = 1 \<or> d = 2 \<or> d = 3 \<or> d = 4 \<or> d = 5 \<or> d = 6
    \<or> d = 7 \<or> d = 8 \<or> d = 9"
    by arith
  then show ?thesis
    by (auto simp: digit_value_def digit_char_def)
qed

lemma digit_char_zero_iff: "d < 10 \<Longrightarrow> digit_char d = CHR ''0'' \<longleftrightarrow> d = 0"
proof -
  assume d: "d < 10"
  have "digit_value (digit_char d) = d"
    using d by (rule digit_value_digit_char)
  moreover have "digit_value CHR ''0'' = 0"
    by (simp add: digit_value_def)
  moreover have "digit_char 0 = CHR ''0''"
    by (simp add: digit_char_def)
  ultimately show ?thesis by metis
qed

lemma digits_value_snoc: "digits_value (s @ [c]) = 10 * digits_value s + digit_value c"
  by (simp add: digits_value_def)

lemma decimal_0: "decimal 0 = ''0''"
  by (simp add: decimal.simps digit_char_def)

lemma decimal_props:
  "decimal n \<noteq> [] \<and> set (decimal n) \<subseteq> set ''0123456789''
   \<and> digits_value (decimal n) = n \<and> (0 < n \<longrightarrow> hd (decimal n) \<noteq> CHR ''0'')"
proof (induction n rule: decimal.induct)
  case (1 n)
  show ?case
  proof (cases "n < 10")
    case True
    then have d: "decimal n = [digit_char n]"
      by (subst decimal.simps) simp
    have "digits_value [digit_char n] = n"
      using True digits_value_snoc [of "[]" "digit_char n"]
      by (simp add: digit_value_digit_char digits_value_def)
    with True show ?thesis
      using digit_char_mem [of n] digit_char_zero_iff [of n] by (simp add: d)
  next
    case False
    then have d: "decimal n = decimal (n div 10) @ [digit_char (n mod 10)]"
      by (subst decimal.simps) simp
    from False have pos: "0 < n div 10"
      by (simp add: div_greater_zero_iff)
    note IH = "1.IH" [OF False]
    have "digits_value (decimal n) = 10 * (n div 10) + n mod 10"
      using IH by (simp add: d digits_value_snoc digit_value_digit_char)
    then have "digits_value (decimal n) = n"
      by simp
    moreover have "hd (decimal n) \<noteq> CHR ''0''"
      using IH pos by (simp add: d)
    moreover have "set (decimal n) \<subseteq> set ''0123456789''"
      using IH digit_char_mem [of "n mod 10"] by (simp add: d)
    ultimately show ?thesis by (simp add: d)
  qed
qed

lemma decimal_pad_split:
  fixes n :: nat
  defines "m \<equiv> decimal n"
  defines "k \<equiv> length m"
  shows "take ((if k \<le> 2 then 2 + 1 else k) - 2) (if k \<le> 2 then replicate (2 + 1 - k) CHR ''0'' @ m else m)
         @ ''.'' @
         drop ((if k \<le> 2 then 2 + 1 else k) - 2) (if k \<le> 2 then replicate (2 + 1 - k) CHR ''0'' @ m else m)
       = decimal (n div 100) @ ''.'' @ [digit_char (n div 10 mod 10), digit_char (n mod 10)]"
proof -
  consider (one) "n < 10" | (two) "10 \<le> n" "n < 100" | (more) "100 \<le> n"
    by linarith
  then show ?thesis
  proof cases
    case one
    then have m: "m = [digit_char n]"
      unfolding m_def by (subst decimal.simps) simp
    show ?thesis
      using one by (simp add: k_def m decimal_0 digit_char_def)
  next
    case two
    then have d: "n div 10 < 10"
      by (intro less_mult_imp_div_less) simp
    with two have m: "m = [digit_char (n div 10), digit_char (n mod 10)]"
      unfolding m_def by (subst decimal.simps, subst decimal.simps) simp
    show ?thesis
      using two d by (simp add: k_def m decimal_0 digit_char_def)
  next
    case more
    then have d: "\<not> n div 10 < 10"
      by (simp add: less_eq_div_iff_mult_less_eq not_less)
    have dd: "n div 10 div 10 = n div 100"
      by (simp add: div_mult2_eq [symmetric])
    from more d have m: "m = decimal (n div 100) @ [digit_char (n div 10 mod 10), digit_char (n mod 10)]"
      unfolding m_def by (subst decimal.simps, subst decimal.simps) (simp add: dd)
    have "decimal (n div 100) \<noteq> []"
      using decimal_props by blast
    then have "0 < length (decimal (n div 100))"
      by simp
    then show ?thesis
      by (simp add: k_def m)
  qed
qed

lemma toFixed_two_digits:
  assumes "0 \<le> x" and "x < 10 ^ 21"
  shows "toFixed ts (Num x) 2 =
     (let n = nat \<lfloor>x * 100 + 1 / 2\<rfloor>
      in decimal (n div 100) @ ''.'' @ [digit_char (n div 10 mod 10), digit_char (n mod 10)])"
  using assms decimal_pad_split [of "nat \<lfloor>x * 100 + 1 / 2\<rfloor>"]
  by (simp add: toFixed_def Let_def)

lemma prints_two_decimalsI:
  assumes "ds \<noteq> []" and "set (ds @ [a, b]) \<subseteq> set ''0123456789''"
    and "ds = ''0'' \<or> hd ds \<noteq> CHR ''0''"
    and "int (digits_value (ds @ [a, b])) = \<lfloor>x * 100 + 1 / 2\<rfloor>"
  shows "prints_two_decimals x (ds @ ''.'' @ [a, b])"
proof -
  let ?s = "ds @ ''.'' @ [a, b]"
  have k: "length ?s - 3 = length ds" "length ?s - 2 = length ds + 1" "4 \<le> length ?s"
    using assms(1) by (simp_all add: Suc_le_eq)
  have t: "take (length ?s - 3) ?s = ds"
    unfolding k by simp
  have d: "drop (length ?s - 2) ?s = [a, b]"
    unfolding k by simp
  have p: "?s ! (length ?s - 3) = CHR ''.''"
    unfolding k by (simp add: nth_append)
  have l: "list_all (\<lambda>c. c \<in> set ''0123456789'') (ds @ [a, b])"
    using assms(2) unfolding list_all_iff by blast
  show ?thesis
    unfolding prints_two_decimals_def Let_def t d
    using k(3) p l assms(3,4) by blast
qed

lemma toFixed_prints_two_decimals:
  assumes "0 \<le> x" and "x < 10 ^ 21"
  shows "prints_two_decimals x (toFixed ts (Num x) 2)"
proof -
  define n where "n = nat \<lfloor>x * 100 + 1 / 2\<rfloor>"
  let ?ds = "decimal (n div 100)"
  let ?a = "digit_char (n div 10 mod 10)"
  let ?b = "digit_char (n mod 10)"
  have tf: "toFixed ts (Num x) 2 = ?ds @ ''.'' @ [?a, ?b]"
    using toFixed_two_digits [OF assms, of ts] by (simp add: Let_def n_def)
  have n: "int n = \<lfloor>x * 100 + 1 / 2\<rfloor>"
    using assms(1) by (simp add: n_def)
  have ne: "?ds \<noteq> []" and dig: "set ?ds \<subseteq> set ''0123456789''"
    and val: "digits_value ?ds = n div 100"
    using decimal_props [of "n div 100"] by blast+
  have lead: "?ds = ''0'' \<or> hd ?ds \<noteq> CHR ''0''"
    using decimal_props [of "n div 100"] decimal_0 by (cases "n div 100 = 0") auto
  have "set (?ds @ [?a, ?b]) \<subseteq> set ''0123456789''"
    using dig digit_char_mem [of "n div 10 mod 10"] digit_char_mem [of "n mod 10"] by simp
  moreover have "digits_value (?ds @ [?a, ?b]) = n"
  proof -
    have "digits_value (?ds @ [?a, ?b]) = digits_value ((?ds @ [?a]) @ [?b])"
      by simp
    also have "\<dots> = 10 * (10 * (n div 100) + n div 10 mod 10) + n mod 10"
      by (simp only: digits_value_snoc val) (simp add: digit_value_digit_char)
    also have "\<dots> = 10 * (10 * (n div 10 div 10) + n div 10 mod 10) + n mod 10"
      by (simp add: div_mult2_eq [symmetric])
    also have "\<dots> = n"
      by simp
    finally show ?thesis .
  qed
  ultimately show ?thesis
    unfolding tf using ne lead n by (intro prints_two_decimalsI) simp_all
qed

lemma units_last: "length units - 1 = 4"
  by (simp add: units_def)

lemma scale_years_stop:
  "\<not> (ge years (Num 1000) \<and> idx < 4) \<Longrightarrow> scale_years years idx = (years, idx)"
  by (subst scale_years.simps) (simp only: units_last if_False)

lemma scale_years_step:
  "ge years (Num 1000) \<Longrightarrow> idx < 4 \<Longrightarrow>
   scale_years years idx = scale_years (divide_binary64 years (Num 1000)) (idx + 1)"
  by (subst scale_years.simps) (simp only: units_last simp_thms if_True)

lemma scale_years_step_Num:
  assumes "1000 \<le> a" and "a < overflow_threshold" and "idx < 4"
  shows "scale_years (Num a) idx = scale_years (Num (round64 (a / 1000))) (idx + 1)"
proof -
  have "ge (Num a) (Num 1000)"
    using assms(1) by (simp add: ge_def)
  then have "scale_years (Num a) idx = scale_years (divide_binary64 (Num a) (Num 1000)) (idx + 1)"
    using assms(3) by (rule scale_years_step)
  moreover have "divide_binary64 (Num a) (Num 1000) = Num (round64 (a / 1000))"
    using assms by (intro divide_binary64_Num) simp_all
  ultimately show ?thesis by (simp only:)
qed

lemma round64_div_1000:
  assumes "0 \<le> a" and "a < overflow_threshold"
  shows "0 \<le> round64 (a / 1000)" and "round64 (a / 1000) < overflow_threshold"
proof -
  have a: "0 \<le> a / 1000"
    using assms(1) by simp
  show "0 \<le> round64 (a / 1000)"
    using a by (rule round64_bounds(1))
  have "round64 (a / 1000) \<le> 2 * (a / 1000)"
    using a by (rule round64_bounds(2))
  also have "\<dots> \<le> a"
    using assms(1) by simp
  finally show "round64 (a / 1000) < overflow_threshold"
    using assms(2) by simp
qed

lemma scale_years_Num:
  fixes y0 :: real
  defines "y1 \<equiv> round64 (y0 / 1000)"
  defines "y2 \<equiv> round64 (y1 / 1000)"
  defines "y3 \<equiv> round64 (y2 / 1000)"
  defines "y4 \<equiv> round64 (y3 / 1000)"
  assumes "0 \<le> y0" and "y0 < overflow_threshold"
  shows "scale_years (Num y0) 0 =
     (if y0 < 1000 then (Num y0, 0)
      else if y1 < 1000 then (Num y1, 1)
      else if y2 < 1000 then (Num y2, 2)
      else if y3 < 1000 then (Num y3, 3)
      else (Num y4, 4))"
proof -
  have b1: "0 \<le> y1" "y1 < overflow_threshold"
    unfolding y1_def using assms(5,6) by (rule round64_div_1000)+
  have b2: "0 \<le> y2" "y2 < overflow_threshold"
    unfolding y2_def using b1 by (rule round64_div_1000)+
  have b3: "0 \<le> y3" "y3 < overflow_threshold"
    unfolding y3_def using b2 by (rule round64_div_1000)+
  have s0: "scale_years (Num y0) 0 = scale_years (Num y1) 1" if "1000 \<le> y0"
    using scale_years_step_Num [of y0 0] that assms(6) by (simp add: y1_def)
  have s1: "scale_years (Num y1) 1 = scale_years (Num y2) 2" if "1000 \<le> y1"
    using scale_years_step_Num [of y1 1] that b1 by (simp add: y2_def numeral_2_eq_2)
  have s2: "scale_years (Num y2) 2 = scale_years (Num y3) 3" if "1000 \<le> y2"
    using scale_years_step_Num [of y2 2] that b2 by (simp add: y3_def)
  have s3: "scale_years (Num y3) 3 = scale_years (Num y4) 4" if "1000 \<le> y3"
    using scale_years_step_Num [of y3 3] that b3 by (simp add: y4_def)
  have stop: "scale_years (Num a) idx = (Num a, idx)" if "a < 1000 \<or> idx = 4" for a idx
    using that by (intro scale_years_stop) (auto simp: ge_def)
  consider "y0 < 1000" | "1000 \<le> y0" "y1 < 1000" | "1000 \<le> y0" "1000 \<le> y1" "y2 < 1000"
    | "1000 \<le> y0" "1000 \<le> y1" "1000 \<le> y2" "y3 < 1000"
    | "1000 \<le> y0" "1000 \<le> y1" "1000 \<le> y2" "1000 \<le> y3"
    by linarith
  then show ?thesis
  proof cases
    case 1
    then show ?thesis by (simp add: stop)
  next
    case 2
    then have "scale_years (Num y0) 0 = scale_years (Num y1) 1"
      by (intro s0)
    also have "\<dots> = (Num y1, 1)"
      using 2 by (intro stop) simp
    finally show ?thesis using 2 by simp
  next
    case 3
    then have "scale_years (Num y0) 0 = scale_years (Num y1) 1"
      by (intro s0)
    also have "\<dots> = scale_years (Num y2) 2"
      using 3 by (intro s1)
    also have "\<dots> = (Num y2, 2)"
      using 3 by (intro stop) simp
    finally show ?thesis using 3 by simp
  next
    case 4
    then have "scale_years (Num y0) 0 = scale_years (Num y1) 1"
      by (intro s0)
    also have "\<dots> = scale_years (Num y2) 2"
      using 4 by (intro s1)
    also have "\<dots> = scale_years (Num y3) 3"
      using 4 by (intro s2)
    also have "\<dots> = (Num y3, 3)"
      using 4 by (intro stop) simp
    finally show ?thesis using 4 by simp
  next
    case 5
    then have "scale_years (Num y0) 0 = scale_years (Num y1) 1"
      by (intro s0)
    also have "\<dots> = scale_years (Num y2) 2"
      using 5 by (intro s1)
    also have "\<dots> = scale_years (Num y3) 3"
      using 5 by (intro s2)
    also have "\<dots> = scale_years (Num y4) 4"
      using 5 by (intro s3)
    also have "\<dots> = (Num y4, 4)"
      by (intro stop) simp
    finally show ?thesis using 5 by simp
  qed
qed

lemma format_seconds:
  assumes "0 \<le> r" and "r < 60"
  shows "format ts (Num r) = toFixed ts (Num r) 2 @ '' Seconds''"
    and "prints_two_decimals r (toFixed ts (Num r) 2)"
proof -
  show "format ts (Num r) = toFixed ts (Num r) 2 @ '' Seconds''"
    using assms by (simp add: format_def)
  show "prints_two_decimals r (toFixed ts (Num r) 2)"
    using assms by (intro toFixed_prints_two_decimals) simp_all
qed

lemma quotient_prints:
  assumes "0 \<le> r" and "r < 31557600" and "1 \<le> b"
  shows "divide_binary64 (Num r) (Num b) = Num (round64 (r / b))"
    and "prints_two_decimals (round64 (r / b)) (toFixed ts (Num (round64 (r / b))) 2)"
proof -
  have r: "r < overflow_threshold"
    using assms(2) by (simp add: overflow_threshold_def)
  show "divide_binary64 (Num r) (Num b) = Num (round64 (r / b))"
    using assms(1) r assms(3) by (rule divide_binary64_Num)
  have q: "0 \<le> r / b"
    using assms by simp
  have "r / b \<le> r / 1"
    using assms by (intro divide_left_mono) simp_all
  then have "2 * (r / b) < 10 ^ 21"
    using assms(2) by simp
  with round64_bounds(2) [OF q] have "round64 (r / b) < 10 ^ 21"
    by linarith
  with round64_bounds(1) [OF q]
  show "prints_two_decimals (round64 (r / b)) (toFixed ts (Num (round64 (r / b))) 2)"
    by (intro toFixed_prints_two_decimals)
qed

lemma format_unit:
  assumes "60 \<le> r" and "r < 31557600"
  shows "format ts (Num r) =
     (if r < 3600 then toFixed ts (Num (round64 (r / 60))) 2 @ '' Minutes''
      else if r < 86400 then toFixed ts (Num (round64 (r / 3600))) 2 @ '' Hours''
      else toFixed ts (Num (round64 (r / 86400))) 2 @ '' Days'')"
proof -
  have r: "0 \<le> r"
    using assms(1) by simp
  note d = quotient_prints(1) [OF r assms(2)]
  show ?thesis
    using assms by (simp add: format_def d del: divide_binary64.simps)
qed

lemma format_years:
  fixes r :: real
  defines "y0 \<equiv> round64 (r / 31557600)"
  defines "y1 \<equiv> round64 (y0 / 1000)"
  defines "y2 \<equiv> round64 (y1 / 1000)"
  defines "y3 \<equiv> round64 (y2 / 1000)"
  defines "y4 \<equiv> round64 (y3 / 1000)"
  assumes "31557600 \<le> r" and "r < overflow_threshold"
  shows "format ts (Num r) =
     (if y0 < 1000 then toFixed ts (Num y0) 2 @ ''  Years''
      else if y1 < 1000 then toFixed ts (Num y1) 2 @ '' Thousand Years''
      else if y2 < 1000 then toFixed ts (Num y2) 2 @ '' Million Years''
      else if y3 < 1000 then toFixed ts (Num y3) 2 @ '' Billion Years''
      else toFixed ts (Num y4) 2 @ '' Trillion Years'')"
    and "0 \<le> y0 \<and> 0 \<le> y1 \<and> 0 \<le> y2 \<and> 0 \<le> y3 \<and> 0 \<le> y4"
proof -
  have r0: "0 \<le> r"
    using assms(6) by simp
  have d: "divide_binary64 (Num r) (Num 31557600) = Num y0"
    unfolding y0_def using r0 assms(7) by (intro divide_binary64_Num) simp_all
  have q: "0 \<le> r / 31557600"
    using r0 by simp
  have y0: "0 \<le> y0"
    unfolding y0_def using q by (rule round64_bounds(1))
  have "y0 \<le> 2 * (r / 31557600)"
    unfolding y0_def using q by (rule round64_bounds(2))
  also have "\<dots> \<le> r"
    using r0 by simp
  finally have y0T: "y0 < overflow_threshold"
    using assms(7) by simp
  have sc: "scale_years (Num y0) 0 =
     (if y0 < 1000 then (Num y0, 0)
      else if y1 < 1000 then (Num y1, 1)
      else if y2 < 1000 then (Num y2, 2)
      else if y3 < 1000 then (Num y3, 3)
      else (Num y4, 4))"
    unfolding y1_def y2_def y3_def y4_def using y0 y0T by (rule scale_years_Num)
  show "format ts (Num r) =
     (if y0 < 1000 then toFixed ts (Num y0) 2 @ ''  Years''
      else if y1 < 1000 then toFixed ts (Num y1) 2 @ '' Thousand Years''
      else if y2 < 1000 then toFixed ts (Num y2) 2 @ '' Million Years''
      else if y3 < 1000 then toFixed ts (Num y3) 2 @ '' Billion Years''
      else toFixed ts (Num y4) 2 @ '' Trillion Years'')"
    using assms(6) by (simp add: format_def d sc units_def del: divide_binary64.simps)
  have y1: "0 \<le> y1"
    unfolding y1_def using y0 y0T by (rule round64_div_1000(1))
  have y1T: "y1 < overflow_threshold"
    unfolding y1_def using y0 y0T by (rule round64_div_1000(2))
  have y2: "0 \<le> y2"
    unfolding y2_def using y1 y1T by (rule round64_div_1000(1))
  have y2T: "y2 < overflow_threshold"
    unfolding y2_def using y1 y1T by (rule round64_div_1000(2))
  have y3: "0 \<le> y3"
    unfolding y3_def using y2 y2T by (rule round64_div_1000(1))
  have y3T: "y3 < overflow_threshold"
    unfolding y3_def using y2 y2T by (rule round64_div_1000(2))
  have y4: "0 \<le> y4"
    unfolding y4_def using y3 y3T by (rule round64_div_1000(1))
  from y0 y1 y2 y3 y4 show "0 \<le> y0 \<and> 0 \<le> y1 \<and> 0 \<le> y2 \<and> 0 \<le> y3 \<and> 0 \<le> y4"
    by simp
qed

lemma toFixed_large: "10 ^ 21 \<le> y \<Longrightarrow> toFixed ts (Num y) 2 = ts y"
proof -
  assume a: "10 ^ 21 \<le> y"
  then have "\<not> y < 0" by (simp add: not_less order_trans [of 0 "10 ^ 21"])
  with a show ?thesis by (simp add: toFixed_def)
qed

text \<open>
  Claim C6, as the code has it. For non-negative seconds \<open>format\<close> follows the strict
  thresholds 60, 3600, 86400 and 31557600, the first match winning: it prints the
  seconds, or the binary64 quotient by 60, 3600 or 86400, with the unit \<open>Seconds\<close>,
  \<open>Minutes\<close>, \<open>Hours\<close> or \<open>Days\<close>; otherwise it divides by 31557600 and then by 1000 while
  the years are at least 1000, through the labels up to \<open>Trillion\<close>, where it halts. The
  number printed is in the two-decimal form whenever it is below \<open>10^21\<close>; the empty
  label leaves two spaces before \<open>Years\<close>; from \<open>10^21\<close> on the digits are those of
  \<open>Number::toString\<close>. The seven examples of the claim hold, and 61.5 seconds print as
  \<open>1.02 Minutes\<close>, 3618 seconds as \<open>1.00 Hours\<close>, the quotients being rounded to binary64
  before they are printed.
\<close>

theorem format_cascade:
  "(0 \<le> r \<and> r < 60 \<longrightarrow>
      (\<exists>s. format ts (Num r) = s @ '' Seconds'' \<and> prints_two_decimals r s))
   \<and> (60 \<le> r \<and> r < 3600 \<longrightarrow>
      (\<exists>s. format ts (Num r) = s @ '' Minutes'' \<and> prints_two_decimals (round64 (r / 60)) s))
   \<and> (3600 \<le> r \<and> r < 86400 \<longrightarrow>
      (\<exists>s. format ts (Num r) = s @ '' Hours'' \<and> prints_two_decimals (round64 (r / 3600)) s))
   \<and> (86400 \<le> r \<and> r < 31557600 \<longrightarrow>
      (\<exists>s. format ts (Num r) = s @ '' Days'' \<and> prints_two_decimals (round64 (r / 86400)) s))
   \<and> (31557600 \<le> r \<and> r < overflow_threshold \<longrightarrow>
      (let y0 = round64 (r / 31557600);
           y1 = round64 (y0 / 1000);
           y2 = round64 (y1 / 1000);
           y3 = round64 (y2 / 1000);
           y4 = round64 (y3 / 1000);
           label = (if y0 < 1000 then [] else if y1 < 1000 then ''Thousand''
                    else if y2 < 1000 then ''Million'' else if y3 < 1000 then ''Billion''
                    else ''Trillion'');
           years = (if y0 < 1000 then y0 else if y1 < 1000 then y1
                    else if y2 < 1000 then y2 else if y3 < 1000 then y3 else y4)
       in (years < 10 ^ 21 \<longrightarrow>
             (\<exists>s. format ts (Num r) = s @ '' '' @ label @ '' Years''
                \<and> prints_two_decimals years s))
          \<and> (10 ^ 21 \<le> years \<longrightarrow> format ts (Num r) = ts years @ '' Trillion Years'')))
   \<and> format ts (Num 30) = ''30.00 Seconds''
   \<and> format ts (Num 90) = ''1.50 Minutes''
   \<and> format ts (Num 7200) = ''2.00 Hours''
   \<and> format ts (Num 172800) = ''2.00 Days''
   \<and> format ts (Num 31557600) = ''1.00  Years''
   \<and> format ts (Num 31557600000) = ''1.00 Thousand Years''
   \<and> format ts (Num 0) = ''0.00 Seconds''
   \<and> format ts (Num (123 / 2)) = ''1.02 Minutes''
   \<and> format ts (Num 3618) = ''1.00 Hours''"
proof -
  have sec: "\<exists>s. format ts (Num r) = s @ '' Seconds'' \<and> prints_two_decimals r s"
    if "0 \<le> r" "r < 60"
    using format_seconds [OF that, of ts] by blast
  have unit: "\<exists>s. format ts (Num r) = s @ u \<and> prints_two_decimals (round64 (r / b)) s"
    if "60 \<le> r" "r < 31557600" "1 \<le> b"
      and "format ts (Num r) = toFixed ts (Num (round64 (r / b))) 2 @ u" for b u
  proof -
    have "0 \<le> r" using that(1) by simp
    from quotient_prints(2) [OF this that(2,3), of ts] that(4) show ?thesis by blast
  qed
  have minutes: "\<exists>s. format ts (Num r) = s @ '' Minutes'' \<and> prints_two_decimals (round64 (r / 60)) s"
    if "60 \<le> r" "r < 3600"
    using that by (intro unit) (simp_all add: format_unit)
  have hours: "\<exists>s. format ts (Num r) = s @ '' Hours'' \<and> prints_two_decimals (round64 (r / 3600)) s"
    if "3600 \<le> r" "r < 86400"
    using that by (intro unit) (simp_all add: format_unit)
  have days: "\<exists>s. format ts (Num r) = s @ '' Days'' \<and> prints_two_decimals (round64 (r / 86400)) s"
    if "86400 \<le> r" "r < 31557600"
    using that by (intro unit) (simp_all add: format_unit)
  have years: "let y0 = round64 (r / 31557600);
           y1 = round64 (y0 / 1000);
           y2 = round64 (y1 / 1000);
           y3 = round64 (y2 / 1000);
           y4 = round64 (y3 / 1000);
           label = (if y0 < 1000 then [] else if y1 < 1000 then ''Thousand''
                    else if y2 < 1000 then ''Million'' else if y3 < 1000 then ''Billion''
                    else ''Trillion'');
           years = (if y0 < 1000 then y0 else if y1 < 1000 then y1
                    else if y2 < 1000 then y2 else if y3 < 1000 then y3 else y4)
       in (years < 10 ^ 21 \<longrightarrow>
             (\<exists>s. format ts (Num r) = s @ '' '' @ label @ '' Years''
                \<and> prints_two_decimals years s))
          \<and> (10 ^ 21 \<le> years \<longrightarrow> format ts (Num r) = ts years @ '' Trillion Years'')"
    if r: "31557600 \<le> r" "r < overflow_threshold"
  proof -
    define y0 where "y0 = round64 (r / 31557600)"
    define y1 where "y1 = round64 (y0 / 1000)"
    define y2 where "y2 = round64 (y1 / 1000)"
    define y3 where "y3 = round64 (y2 / 1000)"
    define y4 where "y4 = round64 (y3 / 1000)"
    note f = format_years(1) [OF r, of ts, folded y0_def, folded y1_def, folded y2_def,
        folded y3_def, folded y4_def]
    note nn = format_years(2) [OF r, folded y0_def, folded y1_def, folded y2_def,
        folded y3_def, folded y4_def]
    have p: "prints_two_decimals y (toFixed ts (Num y) 2)" if "0 \<le> y" "y < 10 ^ 21" for y
      using that by (rule toFixed_prints_two_decimals)
    have small: "y < 1000 \<Longrightarrow> y < 10 ^ 21" for y :: real
      by simp
    consider "y0 < 1000" | "1000 \<le> y0" "y1 < 1000" | "1000 \<le> y0" "1000 \<le> y1" "y2 < 1000"
      | "1000 \<le> y0" "1000 \<le> y1" "1000 \<le> y2" "y3 < 1000"
      | "1000 \<le> y0" "1000 \<le> y1" "1000 \<le> y2" "1000 \<le> y3"
      by linarith
    then have "let label = (if y0 < 1000 then [] else if y1 < 1000 then ''Thousand''
                    else if y2 < 1000 then ''Million'' else if y3 < 1000 then ''Billion''
                    else ''Trillion'');
           years = (if y0 < 1000 then y0 else if y1 < 1000 then y1
                    else if y2 < 1000 then y2 else if y3 < 1000 then y3 else y4)
       in (years < 10 ^ 21 \<longrightarrow>
             (\<exists>s. format ts (Num r) = s @ '' '' @ label @ '' Years''
                \<and> prints_two_decimals years s))
          \<and> (10 ^ 21 \<le> years \<longrightarrow> format ts (Num r) = ts years @ '' Trillion Years'')"
    proof cases
      case 1
      with f p [of y0] nn show ?thesis by (simp add: small)
    next
      case 2
      with f p [of y1] nn show ?thesis by (simp add: small)
    next
      case 3
      with f p [of y2] nn show ?thesis by (simp add: small)
    next
      case 4
      with f p [of y3] nn show ?thesis by (simp add: small)
    next
      case 5
      with f p [of y4] nn toFixed_large [of y4 ts] show ?thesis by auto
    qed
    then show ?thesis
      by (simp only: Let_def y0_def y1_def y2_def y3_def y4_def)
  qed
  note ev = toFixed_def Let_def decimal.simps digit_char_def round_half_even_def
  have e1: "format ts (Num 30) = ''30.00 Seconds''"
    using format_seconds(1) [of 30 ts] by (simp add: ev)
  have e2: "format ts (Num 90) = ''1.50 Minutes''"
    using format_unit [of 90 ts] round64_eval [of 0 "3 / 2"] by (simp add: ev)
  have e3: "format ts (Num 7200) = ''2.00 Hours''"
    using format_unit [of 7200 ts] round64_eval [of 1 2] by (simp add: ev)
  have e4: "format ts (Num 172800) = ''2.00 Days''"
    using format_unit [of 172800 ts] round64_eval [of 1 2] by (simp add: ev)
  have one: "round64 1 = 1"
    using round64_eval [of 0 1] by (simp add: ev)
  have thousand: "round64 1000 = 1000"
    using round64_eval [of 9 1000] by (simp add: ev)
  have e5: "format ts (Num 31557600) = ''1.00  Years''"
    using format_years(1) [of 31557600 ts] by (simp add: one overflow_threshold_def ev)
  have e6: "format ts (Num 31557600000) = ''1.00 Thousand Years''"
    using format_years(1) [of 31557600000 ts]
    by (simp add: one thousand overflow_threshold_def ev)
  have e7: "format ts (Num 0) = ''0.00 Seconds''"
    using format_seconds(1) [of 0 ts] by (simp add: ev)
  have e8: "format ts (Num (123 / 2)) = ''1.02 Minutes''"
    using format_unit [of "123 / 2" ts] round64_eval [of 0 "41 / 40"] by (simp add: ev)
  have e9: "format ts (Num 3618) = ''1.00 Hours''"
    using format_unit [of 3618 ts] round64_eval [of 0 "201 / 200"] by (simp add: ev)
  from sec minutes hours days years e1 e2 e3 e4 e5 e6 e7 e8 e9 show ?thesis
    by blast
qed

theorem format_cascade_witness:
  "86400 \<le> (5000000 :: real) \<and> (5000000 :: real) < 31557600
   \<and> (\<exists>s. format (\<lambda>x. []) (Num 5000000) = s @ '' Days''
         \<and> prints_two_decimals (round64 (5000000 / 86400)) s)
   \<and> format (\<lambda>x. []) (Num 5000000) = ''57.87 Days''"
proof -
  have q: "round64 (3125 / 54) = 8144530576118519 / 140737488355328"
    using round64_eval [of 5 "3125 / 54"] by (simp add: round_half_even_def Let_def)
  have "format (\<lambda>x. []) (Num 5000000) = ''57.87 Days''"
    using format_unit [of 5000000 "\<lambda>x. []"]
    by (simp add: q toFixed_def Let_def decimal.simps digit_char_def)
  moreover note format_cascade [of 5000000 "\<lambda>x. []", THEN conjunct2, THEN conjunct2,
      THEN conjunct2, THEN conjunct1]
  ultimately show ?thesis
    by simp
qed

text \<open>
  Claim C6 as stated fails where it says that all numbers are printed with two decimal
  places: \<open>calculate\<close> returns \<open>Infinity\<close> as the crack time of the password of 218
  letters \<open>a\<close>, and \<open>format\<close> prints it as \<open>Infinity Trillion Years\<close>, whatever
  \<open>Number::toString\<close> does on finite numbers.
\<close>

theorem format_two_decimals_counterexample:
  "crackTimeSeconds (calculate symbolsLength0 (replicate 218 CHR ''a'')) = PosInf
   \<and> (\<forall>ts. format ts PosInf = ''Infinity Trillion Years'')
   \<and> (\<forall>ts. format ts (crackTimeSeconds (calculate symbolsLength0 (replicate 218 CHR ''a'')))
          = ''Infinity Trillion Years'')"
proof -
  have "format ts PosInf = ''Infinity Trillion Years''" for ts
    by (simp add: format_def scale_years.simps ge_def units_def toFixed_def)
  then show ?thesis
    by (simp add: calculate_long_lowercase)
qed

end
